theory Spec2Isabelle
  imports Complex_Main "HOL-Library.Sublist" "HOL-Library.Multiset"
begin

section \<open>Strings and numbers\<close>

text \<open>
  The program is JavaScript (\<^verbatim>\<open>src/github/pullRequest.js\<close>). A JavaScript string is
  a sequence of code units; it is modelled as a \<^typ>\<open>string\<close>, a list of 8-bit
  characters read as the code units below 256. The character classes of the regular
  expressions (\<^verbatim>\<open>\d\<close>, \<^verbatim>\<open>\w\<close>, \<^verbatim>\<open>\b\<close>, \<^verbatim>\<open>[a-z]\<close>, ...) are ASCII classes
  in JavaScript as well, so every other character is outside all of them.
  Line numbers are JavaScript numbers that hold integers; they are modelled as
  \<^typ>\<open>nat\<close> (diff positions) and \<^typ>\<open>int\<close> (comment lines), which is exact below
  \<open>2 ^ 53\<close>. Similarity scores are quotients of small integers compared with
  the constants 0.5, 0.6 and 0.85; they are modelled as exact rationals, and the
  comparisons come out as they do in double precision.
\<close>

definition is_digit :: "char \<Rightarrow> bool" where
  "is_digit c = (c \<in> set ''0123456789'')"

definition is_lower :: "char \<Rightarrow> bool" where
  "is_lower c = (c \<in> set ''abcdefghijklmnopqrstuvwxyz'')"

definition is_upper :: "char \<Rightarrow> bool" where
  "is_upper c = (c \<in> set ''ABCDEFGHIJKLMNOPQRSTUVWXYZ'')"

definition is_alpha :: "char \<Rightarrow> bool" where
  "is_alpha c = (is_lower c \<or> is_upper c)"

text \<open>\<^verbatim>\<open>\w\<close>, that is \<^verbatim>\<open>[a-zA-Z0-9_]\<close>.\<close>

definition is_word :: "char \<Rightarrow> bool" where
  "is_word c = (is_alpha c \<or> is_digit c \<or> c = CHR ''_'')"

text \<open>\<^verbatim>\<open>parseInt(ds, 10)\<close> on a string of decimal digits.\<close>

definition digit_val :: "char \<Rightarrow> nat" where
  "digit_val c = of_char c - 48"

definition parseInt :: "string \<Rightarrow> nat" where
  "parseInt ds = foldl (\<lambda>n c. 10 * n + digit_val c) 0 ds"

text \<open>\<^verbatim>\<open>s.split(d)\<close> for a one-character separator: \<^verbatim>\<open>"".split("\n")\<close> is \<^verbatim>\<open>[""]\<close>.\<close>

fun split_on :: "char \<Rightarrow> string \<Rightarrow> string list" where
  "split_on d [] = [[]]"
| "split_on d (c # cs) =
     (if c = d then [] # split_on d cs
      else (case split_on d cs of [] \<Rightarrow> [[c]] | l # ls \<Rightarrow> (c # l) # ls))"

section \<open>The diff line mapper: \<^verbatim>\<open>extractValidCommentLines\<close>\<close>

text \<open>
  The hunk header pattern is
  \<^verbatim>\<open>/@@ -\d+(?:,\d+)? \+(\d+)(?:,\d+)? @@/\<close>.
  Each \<^verbatim>\<open>\d+\<close> is followed in the pattern by a comma or a space, so only the longest
  run of digits can match; an optional \<^verbatim>\<open>,\d+\<close> group that has matched cannot be given
  up again, because what follows it must be a space and the text has a comma there.
  The pattern is therefore matched without backtracking.
\<close>

definition expect :: "string \<Rightarrow> string \<Rightarrow> string option" where
  "expect p s = (if prefix p s then Some (drop (length p) s) else None)"

definition digits :: "string \<Rightarrow> (string \<times> string) option" where
  "digits s =
     (if takeWhile is_digit s = [] then None
      else Some (takeWhile is_digit s, dropWhile is_digit s))"

definition opt_count :: "string \<Rightarrow> string" where
  "opt_count s =
     (case s of
        [] \<Rightarrow> s
      | c # r \<Rightarrow>
          (if c = CHR '','' then (case digits r of None \<Rightarrow> s | Some (ds, r') \<Rightarrow> r')
           else s))"

text \<open>The pattern anchored at the head of \<open>s\<close>; the result is capture group 1.\<close>

definition header_at :: "string \<Rightarrow> string option" where
  "header_at s =
     (case expect ''@@ -'' s of
        None \<Rightarrow> None
      | Some r1 \<Rightarrow>
          (case digits r1 of
             None \<Rightarrow> None
           | Some (old_start, r2) \<Rightarrow>
               (case expect '' +'' (opt_count r2) of
                  None \<Rightarrow> None
                | Some r3 \<Rightarrow>
                    (case digits r3 of
                       None \<Rightarrow> None
                     | Some (new_start, r4) \<Rightarrow>
                         (case expect '' @@'' (opt_count r4) of
                            None \<Rightarrow> None
                          | Some r5 \<Rightarrow> Some new_start)))))"

text \<open>\<^verbatim>\<open>line.match(...)\<close> is not anchored: the leftmost position that matches wins.\<close>

fun header_match :: "string \<Rightarrow> string option" where
  "header_match [] = None"
| "header_match (c # cs) =
     (case header_at (c # cs) of
        Some g \<Rightarrow> Some g
      | None \<Rightarrow> header_match cs)"

text \<open>
  The loop body of \<^verbatim>\<open>extractValidCommentLines\<close>, as a recursion over the remaining
  lines; the argument \<open>cur\<close> is \<^verbatim>\<open>currentLine\<close> (\<open>None\<close> for \<^verbatim>\<open>null\<close>) and the
  result lists what the loop pushes on \<^verbatim>\<open>validLines\<close>, in order.
\<close>

fun scan_lines :: "nat option \<Rightarrow> string list \<Rightarrow> nat list" where
  "scan_lines cur [] = []"
| "scan_lines cur (l # ls) =
     (if prefix ''@@'' l then
        (case header_match l of
           Some g \<Rightarrow> scan_lines (Some (parseInt g)) ls
         | None \<Rightarrow> scan_lines cur ls)
      else
        (case cur of
           None \<Rightarrow> scan_lines None ls
         | Some n \<Rightarrow>
             (if prefix ''+'' l \<or> prefix '' '' l then n # scan_lines (Some (n + 1)) ls
              else scan_lines (Some n) ls)))"

definition extractValidCommentLines :: "string \<Rightarrow> nat list" where
  "extractValidCommentLines diff =
     (if diff = [] then [] else scan_lines None (split_on CHR ''\<newline>'' diff))"

subsection \<open>Hunks of a diff\<close>

text \<open>
  A line is a valid hunk header when it starts with \<^verbatim>\<open>@@\<close> and the pattern matches
  in it; it is a malformed header when it starts with \<^verbatim>\<open>@@\<close> and the pattern does
  not match. A hunk is a valid header, with the new-file start it gives, and the
  lines up to the next valid header. A line of a hunk is tagged added or context by
  its first character.
\<close>

definition new_start :: "string \<Rightarrow> nat option" where
  "new_start l = (if prefix ''@@'' l then map_option parseInt (header_match l) else None)"

definition valid_header :: "string \<Rightarrow> bool" where
  "valid_header l = (new_start l \<noteq> None)"

definition malformed_header :: "string \<Rightarrow> bool" where
  "malformed_header l = (prefix ''@@'' l \<and> header_match l = None)"







section \<open>The comment deduplicator\<close>

subsection \<open>Character operations\<close>

text \<open>
  \<^verbatim>\<open>toLowerCase\<close> on the characters with codes below 256: the ASCII capitals, and
  the capitals of Latin-1 (codes 192 to 222 without the multiplication sign 215).
  \<^verbatim>\<open>\s\<close> and \<^verbatim>\<open>trim\<close> take tab, line feed, vertical tab, form feed, carriage
  return, space and the no-break space (code 160) as white space.
\<close>

definition to_lower :: "char \<Rightarrow> char" where
  "to_lower c =
     (let n = (of_char c :: nat)
      in if (65 \<le> n \<and> n \<le> 90) \<or> (192 \<le> n \<and> n \<le> 222 \<and> n \<noteq> 215)
         then char_of (n + 32) else c)"

definition toLowerCase :: "string \<Rightarrow> string" where
  "toLowerCase s = map to_lower s"

definition is_space :: "char \<Rightarrow> bool" where
  "is_space c = ((of_char c :: nat) \<in> set [9, 10, 11, 12, 13, 32, 160])"

definition trim :: "string \<Rightarrow> string" where
  "trim s = rev (dropWhile is_space (rev (dropWhile is_space s)))"

text \<open>\<^verbatim>\<open>s.includes(p)\<close>: \<open>p\<close> occurs in \<open>s\<close> as a contiguous substring.\<close>

fun includes_str :: "string \<Rightarrow> string \<Rightarrow> bool" where
  "includes_str [] p = (p = [])"
| "includes_str (c # cs) p = (prefix p (c # cs) \<or> includes_str cs p)"

text \<open>
  \<^verbatim>\<open>s.split(/X+/)\<close> for a character class \<open>X\<close>: the pieces between the maximal runs
  of separators, with an empty first or last piece when the string starts or ends
  with a separator; the argument \<open>cur\<close> holds the piece being read, reversed.
\<close>

function split_runs :: "(char \<Rightarrow> bool) \<Rightarrow> string \<Rightarrow> string \<Rightarrow> string list" where
  "split_runs sep cur [] = [rev cur]"
| "split_runs sep cur (c # cs) =
     (if sep c then rev cur # split_runs sep [] (dropWhile sep cs)
      else split_runs sep (c # cur) cs)"
  by pat_completeness auto
termination
  by (relation "measure (\<lambda>(sep, cur, s). length s)")
    (auto simp: length_dropWhile_le less_Suc_eq_le)

text \<open>\<^verbatim>\<open>[...new Set(xs)]\<close>: the first occurrence of every element, in order.\<close>

fun uniq :: "'a list \<Rightarrow> 'a list" where
  "uniq [] = []"
| "uniq (x # xs) = x # filter (\<lambda>y. y \<noteq> x) (uniq xs)"

subsection \<open>The comment template: \<^verbatim>\<open>extractCommentTemplate\<close>\<close>

definition commonWords :: "string list" where
  "commonWords =
     [''the'', ''if'', ''on'', ''in'', ''at'', ''by'', ''for'', ''with'', ''about'',
      ''against'', ''between'', ''into'', ''through'', ''during'', ''before'', ''after'',
      ''above'', ''below'', ''from'', ''up'', ''down'', ''may'', ''will'', ''can'', ''must'',
      ''should'', ''could'', ''would'', ''might'', ''every'', ''some'', ''other'', ''such'',
      ''only'', ''then'', ''than'', ''when'', ''been'', ''this'', ''that'', ''these'',
      ''those'', ''their'', ''has'', ''have'', ''had'', ''not'', ''and'', ''but'', ''or'',
      ''as'', ''what'', ''all'']"

definition isCommonWord :: "string \<Rightarrow> bool" where
  "isCommonWord w = (toLowerCase w \<in> set commonWords)"

text \<open>The list \<^verbatim>\<open>keywords\<close> of \<^verbatim>\<open>isCodeKeyword\<close>.\<close>

definition codeKeywords :: "string list" where
  "codeKeywords =
     [''function'', ''return'', ''if'', ''else'', ''for'', ''while'', ''break'',
      ''continue'', ''class'', ''interface'', ''extends'', ''implements'', ''import'',
      ''export'', ''try'', ''catch'', ''finally'', ''throw'', ''async'', ''await'', ''new'',
      ''this'', ''const'', ''let'', ''var'', ''void'', ''null'', ''undefined'', ''true'',
      ''false'', ''public'', ''private'', ''protected'', ''static'', ''final'',
      ''abstract'', ''default'', ''delete'', ''instanceof'', ''typeof'', ''yield'', ''get'',
      ''set'', ''in'', ''of'', ''switch'', ''case'', ''super'', ''with'']"

definition isCodeKeyword :: "string \<Rightarrow> bool" where
  "isCodeKeyword w = (toLowerCase w \<in> set codeKeywords)"

text \<open>
  The four anchored tests of the replace callback, in the order of the source:
  \<^verbatim>\<open>/^[a-z][a-zA-Z0-9_]*$/\<close>, \<^verbatim>\<open>/^[A-Z][a-zA-Z0-9_]*$/\<close>,
  \<^verbatim>\<open>/^[a-z][a-z0-9_]*_[a-z0-9_]+$/\<close> and \<^verbatim>\<open>/^[A-Z][A-Z0-9_]*$/\<close>.
  The third asks for an underscore that is not the last character, all characters
  after the first being lower-case letters, digits or underscores.
\<close>

definition looks_camel :: "string \<Rightarrow> bool" where
  "looks_camel m = (case m of [] \<Rightarrow> False | c # r \<Rightarrow> is_lower c \<and> list_all is_word r)"

definition looks_class :: "string \<Rightarrow> bool" where
  "looks_class m = (case m of [] \<Rightarrow> False | c # r \<Rightarrow> is_upper c \<and> list_all is_word r)"

definition looks_snake :: "string \<Rightarrow> bool" where
  "looks_snake m =
     (case m of
        [] \<Rightarrow> False
      | c # r \<Rightarrow>
          is_lower c
          \<and> list_all (\<lambda>x. is_lower x \<or> is_digit x \<or> x = CHR ''_'') r
          \<and> CHR ''_'' \<in> set (butlast r))"

definition looks_const :: "string \<Rightarrow> bool" where
  "looks_const m =
     (case m of
        [] \<Rightarrow> False
      | c # r \<Rightarrow> is_upper c \<and> list_all (\<lambda>x. is_upper x \<or> is_digit x \<or> x = CHR ''_'') r)"

text \<open>The callback of the first \<^verbatim>\<open>replace\<close>: what stands for the matched token.\<close>

definition classify :: "string \<Rightarrow> string" where
  "classify m =
     (if isCommonWord m then m
      else if isCodeKeyword m then m
      else if looks_camel m then ''{var}''
      else if looks_class m then ''{Class}''
      else if looks_snake m then ''{snake_var}''
      else if looks_const m then ''{CONST}''
      else m)"

text \<open>
  Case 1, \<^verbatim>\<open>replace(/\b[a-zA-Z][a-zA-Z0-9_]*\b/g, callback)\<close>. The pattern starts
  and ends at a word boundary and takes word characters only, so a match is a whole
  maximal run of word characters, and it matches exactly the runs that start with a
  letter; a run that starts with a digit or an underscore is copied. The function is
  always called at the start of a run or on a character outside any run.
\<close>

function replace_identifiers :: "string \<Rightarrow> string" where
  "replace_identifiers [] = []"
| "replace_identifiers (c # cs) =
     (if is_word c then
        (if is_alpha c then classify (c # takeWhile is_word cs)
         else c # takeWhile is_word cs)
        @ replace_identifiers (dropWhile is_word cs)
      else c # replace_identifiers cs)"
  by pat_completeness auto
termination
  by (relation "measure length") (auto simp: length_dropWhile_le less_Suc_eq_le)

text \<open>
  Case 2, \<^verbatim>\<open>replace(/(json\.loads on )([A-Z][A-Z0-9_]*)/, '$1{ENV_VAR}')\<close>: the first
  match only. \<open>env_var_at\<close> matches the pattern at the head of the string and gives
  what follows the match.
\<close>

definition env_var_at :: "string \<Rightarrow> string option" where
  "env_var_at s =
     (case expect ''json.loads on '' s of
        None \<Rightarrow> None
      | Some r \<Rightarrow>
          (case r of
             [] \<Rightarrow> None
           | d # r' \<Rightarrow>
               (if is_upper d
                then Some (dropWhile (\<lambda>x. is_upper x \<or> is_digit x \<or> x = CHR ''_'') r')
                else None)))"

fun replace_env_var :: "string \<Rightarrow> string" where
  "replace_env_var [] = []"
| "replace_env_var (c # cs) =
     (case env_var_at (c # cs) of
        Some rest \<Rightarrow> ''json.loads on {ENV_VAR}'' @ rest
      | None \<Rightarrow> c # replace_env_var cs)"

text \<open>
  Case 3, \<^verbatim>\<open>replace(/(\.\s*)([a-zA-Z][a-zA-Z0-9_]*)(\s*\()/g, '$1{method}$3')\<close>.
  White space, word characters and the parenthesis are disjoint classes, so each
  starred part takes its longest run. \<open>method_call_at\<close> matches the pattern at the
  head of the string and gives group 1, group 3 and what follows the match.
\<close>

definition method_call_at :: "string \<Rightarrow> (string \<times> string \<times> string) option" where
  "method_call_at s =
     (case s of
        [] \<Rightarrow> None
      | c # r \<Rightarrow>
          (if c \<noteq> CHR ''.'' then None
           else
             (case dropWhile is_space r of
                [] \<Rightarrow> None
              | a # r2 \<Rightarrow>
                  (if \<not> is_alpha a then None
                   else
                     (case dropWhile is_space (dropWhile is_word r2) of
                        [] \<Rightarrow> None
                      | p # rest \<Rightarrow>
                          (if p \<noteq> CHR ''('' then None
                           else Some (c # takeWhile is_space r,
                                      takeWhile is_space (dropWhile is_word r2) @ [p],
                                      rest)))))))"

function replace_method_calls :: "string \<Rightarrow> string" where
  "replace_method_calls [] = []"
| "replace_method_calls (c # cs) =
     (case method_call_at (c # cs) of
        Some (g1, g3, rest) \<Rightarrow> g1 @ ''{method}'' @ g3 @ replace_method_calls rest
      | None \<Rightarrow> c # replace_method_calls cs)"
  by pat_completeness auto
termination
proof (relation "measure length")
  show "wf (measure length)" by simp
next
  fix c :: char and cs
  show "(cs, c # cs) \<in> measure length" by simp
next
  fix c :: char and cs x2 g1 y g3 rest
  assume "method_call_at (c # cs) = Some x2" and "(g1, y) = x2" and "(g3, rest) = y"
  then have m: "method_call_at (c # cs) = Some (g1, g3, rest)" by simp
  have le: "\<And>P (xs :: string). length (dropWhile P xs) \<le> length xs"
    by (rule length_dropWhile_le)
  from m obtain a r2 p where
    a: "dropWhile is_space cs = a # r2" and
    b: "dropWhile is_space (dropWhile is_word r2) = p # rest"
    by (auto simp: method_call_at_def split: list.splits if_splits)
  have "length rest < length (dropWhile is_word r2)"
    using le [of is_space "dropWhile is_word r2"] b by simp
  also have "\<dots> \<le> length r2" by (rule le)
  also have "\<dots> < length (dropWhile is_space cs)" using a by simp
  also have "\<dots> \<le> length cs" by (rule le)
  finally show "(rest, c # cs) \<in> measure length" by simp
qed

definition extractCommentTemplate :: "string \<Rightarrow> string" where
  "extractCommentTemplate comment =
     replace_method_calls (replace_env_var (replace_identifiers comment))"

subsection \<open>The keyword set: \<^verbatim>\<open>extractKeywordsFromComment\<close>\<close>

definition codeRelatedTerms :: "string list" where
  "codeRelatedTerms =
     [''async'', ''await'', ''sync'', ''function'', ''method'', ''class'', ''object'',
      ''variable'', ''const'', ''let'', ''var'', ''import'', ''export'', ''return'',
      ''parameter'', ''argument'', ''callback'', ''promise'', ''error'', ''exception'',
      ''null'', ''undefined'', ''boolean'', ''string'', ''number'', ''array'', ''json'',
      ''memory'', ''leak'', ''performance'', ''security'', ''vulnerability'', ''injection'',
      ''validation'', ''sanitize'', ''request'', ''response'', ''api'', ''database'',
      ''query'', ''sql'', ''http'', ''token'', ''authentication'', ''authorization'',
      ''upload'', ''download'', ''file'', ''stream'', ''buffer'', ''parse'', ''serialize'']"

definition isCodeRelatedTerm :: "string \<Rightarrow> bool" where
  "isCodeRelatedTerm w =
     (w \<in> set codeRelatedTerms
      \<or> includes_str w ''error''
      \<or> includes_str w ''bug''
      \<or> includes_str w ''fix''
      \<or> includes_str w ''issue'')"

text \<open>
  \<^verbatim>\<open>normalizedText.split(/\W+/).filter(w => w.length > 2)\<close>, the words of the
  lower-cased text.
\<close>

definition comment_words :: "string \<Rightarrow> string list" where
  "comment_words commentText =
     filter (\<lambda>w. 2 < length w) (split_runs (\<lambda>c. \<not> is_word c) [] (toLowerCase commentText))"

text \<open>
  The pattern of the code elements has four alternatives, tried in this order at
  every position: a span between two backticks (character code 96) with at least
  one character inside; a run of word characters from a word boundary followed by
  \<^verbatim>\<open>()\<close>; a capital letter at a word boundary followed by at least one word
  character; and \<^verbatim>\<open>[a-z][a-zA-Z0-9_]+\.[a-z][a-zA-Z0-9_]+\<close>, which may start inside
  a word. Every starred or plussed class is followed by a character outside the
  class, so it takes its longest run. \<open>code_element_at pw c cs\<close> matches at the head
  of \<open>c # cs\<close>, where \<open>pw\<close> tells whether the character before is a word character,
  and gives how many characters of \<open>cs\<close> belong to the match.
\<close>

definition code_element_at :: "bool \<Rightarrow> char \<Rightarrow> string \<Rightarrow> nat option" where
  "code_element_at pw c cs =
     (if c = CHR 0x60 \<and> takeWhile (\<lambda>x. x \<noteq> CHR 0x60) cs \<noteq> []
         \<and> dropWhile (\<lambda>x. x \<noteq> CHR 0x60) cs \<noteq> []
      then Some (length (takeWhile (\<lambda>x. x \<noteq> CHR 0x60) cs) + 1)
      else if \<not> pw \<and> is_word c \<and> prefix ''()'' (dropWhile is_word cs)
      then Some (length (takeWhile is_word cs) + 2)
      else if \<not> pw \<and> is_upper c \<and> takeWhile is_word cs \<noteq> []
      then Some (length (takeWhile is_word cs))
      else if is_lower c \<and> takeWhile is_word cs \<noteq> []
      then
        (case dropWhile is_word cs of
           p # d # r \<Rightarrow>
             (if p = CHR ''.'' \<and> is_lower d \<and> takeWhile is_word r \<noteq> []
              then Some (length (takeWhile is_word cs) + 2 + length (takeWhile is_word r))
              else None)
         | _ \<Rightarrow> None)
      else None)"

text \<open>\<^verbatim>\<open>commentText.match(/.../g) || []\<close>: the matches from left to right.\<close>

fun code_elements_from :: "bool \<Rightarrow> string \<Rightarrow> string list" where
  "code_elements_from pw [] = []"
| "code_elements_from pw (c # cs) =
     (case code_element_at pw c cs of
        Some k \<Rightarrow>
          (c # take k cs) # code_elements_from (is_word (last (c # take k cs))) (drop k cs)
      | None \<Rightarrow> code_elements_from (is_word c) cs)"

definition codeElements :: "string \<Rightarrow> string list" where
  "codeElements commentText =
     map (\<lambda>s. toLowerCase (filter (\<lambda>x. x \<noteq> CHR 0x60) s))
       (code_elements_from False commentText)"

definition technicalTerms :: "string \<Rightarrow> string list" where
  "technicalTerms commentText = filter isCodeRelatedTerm (comment_words commentText)"

definition extractKeywordsFromComment :: "string \<Rightarrow> string list" where
  "extractKeywordsFromComment commentText =
     uniq (codeElements commentText @ technicalTerms commentText)"

subsection \<open>Similarity scores\<close>

definition calculateKeywordOverlap :: "string list \<Rightarrow> string list \<Rightarrow> rat" where
  "calculateKeywordOverlap keywords1 keywords2 =
     (if keywords1 = [] \<or> keywords2 = [] then 0
      else of_nat (length (filter (\<lambda>kw. kw \<in> set keywords2) keywords1))
           / of_nat (length (remdups (keywords1 @ keywords2))))"

text \<open>
  \<^verbatim>\<open>levenshteinDistance\<close> fills a matrix \<^verbatim>\<open>dp[i][j]\<close>; \<open>lev_dp a b i j\<close> is the
  value the loops store there.
\<close>

fun lev_dp :: "string \<Rightarrow> string \<Rightarrow> nat \<Rightarrow> nat \<Rightarrow> nat" where
  "lev_dp a b i 0 = i"
| "lev_dp a b 0 j = j"
| "lev_dp a b (Suc i) (Suc j) =
     min (min (lev_dp a b i (Suc j) + 1) (lev_dp a b (Suc i) j + 1))
         (lev_dp a b i j + (if a ! i = b ! j then 0 else 1))"

definition levenshteinDistance :: "string \<Rightarrow> string \<Rightarrow> nat" where
  "levenshteinDistance str1 str2 = lev_dp str1 str2 (length str1) (length str2)"

definition wordBasedSimilarity :: "string \<Rightarrow> string \<Rightarrow> rat" where
  "wordBasedSimilarity str1 str2 =
     (let words1 = filter (\<lambda>w. 2 < length w) (split_runs is_space [] str1);
          words2 = filter (\<lambda>w. 2 < length w) (split_runs is_space [] str2)
      in if words1 = [] \<or> words2 = [] then 0
         else of_nat (2 * length (filter (\<lambda>w. w \<in> set words2) words1))
              / of_nat (length words1 + length words2))"

text \<open>
  The punctuation that \<^verbatim>\<open>normalize\<close> turns into spaces:
  \<^verbatim>\<open>/[.,\/#!$%\^&\*;:{}=\-_`~()]/g\<close>.
\<close>

definition is_punct :: "char \<Rightarrow> bool" where
  "is_punct c = (c \<in> set ''.,/#!$%^&*;:{}=-_~()'' \<or> c = CHR 0x60)"

definition normalize :: "string \<Rightarrow> string" where
  "normalize str = trim (map (\<lambda>c. if is_punct c then CHR '' '' else c) (toLowerCase str))"

definition stringSimilarity :: "string \<Rightarrow> string \<Rightarrow> rat" where
  "stringSimilarity str1 str2 =
     (let s1 = normalize str1; s2 = normalize str2
      in if 20 < \<bar>int (length s1) - int (length s2)\<bar> then wordBasedSimilarity s1 s2
         else
           (let distance = levenshteinDistance s1 s2;
                maxLength = max (length s1) (length s2)
            in if maxLength = 0 then 1 else 1 - of_nat distance / of_nat maxLength))"

subsection \<open>\<^verbatim>\<open>isDuplicateComment\<close>\<close>

text \<open>
  A comment, candidate or existing, as far as the deduplicator reads it: its line
  and its body.
\<close>

record comment =
  line :: int
  body :: string

text \<open>
  The loop over the existing comments, with its \<^verbatim>\<open>continue\<close> and its two
  \<^verbatim>\<open>return true\<close>; the thresholds 0.5, 0.6 and 0.85 are the rationals
  \<open>1/2\<close>, \<open>3/5\<close> and \<open>17/20\<close>.
\<close>

fun isDuplicateComment :: "comment \<Rightarrow> comment list \<Rightarrow> int \<Rightarrow> bool" where
  "isDuplicateComment newComment [] lineProximity = False"
| "isDuplicateComment newComment (existingComment # rest) lineProximity =
     (if lineProximity < \<bar>line existingComment - line newComment\<bar>
      then isDuplicateComment newComment rest lineProximity
      else if extractCommentTemplate (body existingComment)
              = extractCommentTemplate (body newComment)
      then True
      else if 1 / 2 < calculateKeywordOverlap
                        (extractKeywordsFromComment (body newComment))
                        (extractKeywordsFromComment (body existingComment))
              \<or> 3 / 5 < stringSimilarity (body newComment) (body existingComment)
              \<or> 17 / 20 < stringSimilarity
                             (extractCommentTemplate (body newComment))
                             (extractCommentTemplate (body existingComment))
      then True
      else isDuplicateComment newComment rest lineProximity)"

text \<open>The call with two arguments takes the default \<^verbatim>\<open>lineProximity = 5\<close>.\<close>

definition isDuplicateComment_default :: "comment \<Rightarrow> comment list \<Rightarrow> bool" where
  "isDuplicateComment_default newComment existingComments =
     isDuplicateComment newComment existingComments 5"

text \<open>
  The test the claims describe for one existing comment: it is within
  \<open>lineProximity\<close> lines of the candidate, and the templates are equal or one of
  the three scores is above its threshold.
\<close>

definition is_match :: "comment \<Rightarrow> int \<Rightarrow> comment \<Rightarrow> bool" where
  "is_match newComment lineProximity e =
     (\<bar>line e - line newComment\<bar> \<le> lineProximity
      \<and> (extractCommentTemplate (body e) = extractCommentTemplate (body newComment)
         \<or> 1 / 2 < calculateKeywordOverlap
                       (extractKeywordsFromComment (body newComment))
                       (extractKeywordsFromComment (body e))
         \<or> 3 / 5 < stringSimilarity (body newComment) (body e)
         \<or> 17 / 20 < stringSimilarity
                        (extractCommentTemplate (body newComment))
                        (extractCommentTemplate (body e))))"

text \<open>
  A character that \<^verbatim>\<open>normalize\<close> keeps and \<^verbatim>\<open>trim\<close> does not strip: lower-cased,
  it is neither punctuation nor white space.
\<close>

definition solid :: "char \<Rightarrow> bool" where
  "solid c = (\<not> is_punct (to_lower c) \<and> \<not> is_space (to_lower c))"

text \<open>
  The Jaccard similarity of two sets, intersection size by union size, taken as 0
  when one of them is empty.
\<close>

definition jaccard :: "string set \<Rightarrow> string set \<Rightarrow> rat" where
  "jaccard A B =
     (if A = {} \<or> B = {} then 0 else of_nat (card (A \<inter> B)) / of_nat (card (A \<union> B)))"

text \<open>The number of opening braces of a string.\<close>

definition braces :: "string \<Rightarrow> nat" where
  "braces s = length (filter (\<lambda>c. c = CHR ''{'') s)"

section \<open>Properties of the diff line mapper\<close>






lemma scan_lines_skip_malformed:
  "malformed_header l \<Longrightarrow> scan_lines cur (pre @ l # rest) = scan_lines cur (pre @ rest)"
  by (induction pre arbitrary: cur) (auto simp: malformed_header_def split: option.splits)

lemma scan_lines_unset:
  "\<not> list_ex valid_header mid \<Longrightarrow> scan_lines None (mid @ rest) = scan_lines None rest"
  by (induction mid) (auto simp: valid_header_def new_start_def split: option.splits)



text \<open>
  Claim C3, as stated: after a malformed hunk header the added and context lines are
  ignored until the next valid header, even when an earlier valid header had set the
  cursor. The code keeps the cursor instead: in the diff below the line \<^verbatim>\<open>+b\<close>
  follows the malformed header \<^verbatim>\<open>@@ bad\<close> and is recorded, at position 2.
\<close>

theorem malformed_header_counterexample:
  "malformed_header ''@@ bad''
   \<and> extractValidCommentLines ''@@ -1 +1 @@\<newline>+a\<newline>@@ bad\<newline>+b'' = [1, 2]"
  by code_simp

text \<open>
  Claim C3, amended. A malformed hunk header changes nothing: the result of the scan
  is the same as without that line, whatever the cursor was. So the lines after it
  are recorded from the cursor's value when an earlier valid header has set the
  cursor; when the cursor is unset, they are ignored up to the next valid header.
\<close>

theorem malformed_header_ignored:
  "malformed_header l \<Longrightarrow>
     scan_lines cur (pre @ l # rest) = scan_lines cur (pre @ rest)
     \<and> (\<not> list_ex valid_header mid \<longrightarrow>
          scan_lines None (l # mid @ rest) = scan_lines None rest)"
proof
  assume m: "malformed_header l"
  then show "scan_lines cur (pre @ l # rest) = scan_lines cur (pre @ rest)"
    by (rule scan_lines_skip_malformed)
  show "\<not> list_ex valid_header mid \<longrightarrow>
          scan_lines None (l # mid @ rest) = scan_lines None rest"
  proof
    assume n: "\<not> list_ex valid_header mid"
    have "scan_lines None (l # mid @ rest) = scan_lines None (mid @ rest)"
      using scan_lines_skip_malformed [OF m, of None "[]" "mid @ rest"] by simp
    also have "\<dots> = scan_lines None rest" using n by (rule scan_lines_unset)
    finally show "scan_lines None (l # mid @ rest) = scan_lines None rest" .
  qed
qed

theorem malformed_header_ignored_witness:
  "malformed_header ''@@ bad''
   \<and> scan_lines (Some 7) ([''+a''] @ ''@@ bad'' # [''+b'']) = [7, 8]
   \<and> \<not> list_ex valid_header [''+b'']
   \<and> scan_lines None (''@@ bad'' # [''+b''] @ [''@@ -1 +4 @@'', ''+c'']) = [4]"
proof -
  have m: "malformed_header ''@@ bad''" by code_simp
  have n: "\<not> list_ex valid_header [''+b'']" by code_simp
  have e: "scan_lines (Some 7) ([''+a''] @ [''+b'']) = [7, 8]" by code_simp
  have f: "scan_lines None [''@@ -1 +4 @@'', ''+c''] = [4]" by code_simp
  from malformed_header_ignored [OF m, of "Some 7" "[''+a'']" "[''+b'']" "[''+b'']"]
  have a: "scan_lines (Some 7) ([''+a''] @ ''@@ bad'' # [''+b'']) = [7, 8]"
    using e by simp
  from malformed_header_ignored
    [OF m, of None "[]" "[''@@ -1 +4 @@'', ''+c'']" "[''+b'']"] n
  have b: "scan_lines None (''@@ bad'' # [''+b''] @ [''@@ -1 +4 @@'', ''+c'']) = [4]"
    using f by simp
  from m n a b show ?thesis by blast
qed

text \<open>
  Claim C4. On the diff \<^verbatim>\<open>@@ -1,3 +1,4 @@\<close> followed by the lines \<^verbatim>\<open> line1\<close>,
  \<^verbatim>\<open>+line2\<close>, \<^verbatim>\<open> line3\<close>, \<^verbatim>\<open>-line4\<close>, \<^verbatim>\<open> line5\<close> the result is
  \<open>[1, 2, 3, 4]\<close>: the removed line is neither recorded nor counted.
\<close>

theorem extractValidCommentLines_example:
  "extractValidCommentLines
     ''@@ -1,3 +1,4 @@\<newline> line1\<newline>+line2\<newline> line3\<newline>-line4\<newline> line5''
   = [1, 2, 3, 4]"
  by code_simp

section \<open>Properties of the comment deduplicator\<close>

subsection \<open>The decision\<close>

lemma isDuplicateComment_list_ex:
  "isDuplicateComment n es p = list_ex (is_match n p) es"
  by (induction es) (auto simp: is_match_def)

lemma set_uniq: "set (uniq xs) = set xs"
  by (induction xs) auto

lemma distinct_uniq: "distinct (uniq xs)"
  by (induction xs) (auto simp: set_uniq)

lemma distinct_extractKeywords: "distinct (extractKeywordsFromComment t)"
  by (simp add: extractKeywordsFromComment_def distinct_uniq)

lemma calculateKeywordOverlap_jaccard:
  assumes "distinct k1"
  shows "calculateKeywordOverlap k1 k2 = jaccard (set k1) (set k2)"
proof -
  have "set (filter (\<lambda>kw. kw \<in> set k2) k1) = set k1 \<inter> set k2" by auto
  moreover have "distinct (filter (\<lambda>kw. kw \<in> set k2) k1)" using assms by simp
  ultimately have a: "length (filter (\<lambda>kw. kw \<in> set k2) k1) = card (set k1 \<inter> set k2)"
    by (metis distinct_card)
  have b: "length (remdups (k1 @ k2)) = card (set k1 \<union> set k2)"
    by (simp add: length_remdups_card_conv)
  show ?thesis
    unfolding calculateKeywordOverlap_def jaccard_def a b by simp
qed

text \<open>
  Claim C1. \<^verbatim>\<open>isDuplicateComment\<close> returns true exactly when some existing comment
  is within \<open>lineProximity\<close> lines of the candidate and has the same template, or a
  keyword overlap above 0.5, or a text similarity above 0.6, or a template similarity
  above 0.85. When every existing comment is farther away the result is false,
  whatever the bodies are; it is false for the empty sequence; the call with two
  arguments is the call with proximity 5; and the keyword overlap is the Jaccard
  similarity of the two keyword sets.
\<close>

theorem isDuplicateComment_characterised:
  "isDuplicateComment n es p =
     (\<exists>e \<in> set es.
        \<bar>line e - line n\<bar> \<le> p
        \<and> (extractCommentTemplate (body e) = extractCommentTemplate (body n)
           \<or> 1 / 2 < calculateKeywordOverlap
                         (extractKeywordsFromComment (body n))
                         (extractKeywordsFromComment (body e))
           \<or> 3 / 5 < stringSimilarity (body n) (body e)
           \<or> 17 / 20 < stringSimilarity
                          (extractCommentTemplate (body n))
                          (extractCommentTemplate (body e))))
   \<and> ((\<forall>e \<in> set es. p < \<bar>line e - line n\<bar>) \<longrightarrow> \<not> isDuplicateComment n es p)
   \<and> \<not> isDuplicateComment n [] p
   \<and> isDuplicateComment_default n es = isDuplicateComment n es 5
   \<and> calculateKeywordOverlap
        (extractKeywordsFromComment (body n)) (extractKeywordsFromComment b)
      = jaccard (set (extractKeywordsFromComment (body n)))
          (set (extractKeywordsFromComment b))"
  unfolding isDuplicateComment_list_ex isDuplicateComment_default_def
  by (auto simp: list_ex_iff is_match_def calculateKeywordOverlap_jaccard
      distinct_extractKeywords)

theorem isDuplicateComment_characterised_witness:
  "isDuplicateComment
     \<lparr>line = 10, body = ''Unused variable fooBar should be removed.''\<rparr>
     [\<lparr>line = 100, body = ''Unused variable fooBar should be removed.''\<rparr>] 5 = False
   \<and> isDuplicateComment
     \<lparr>line = 10, body = ''Unused variable fooBar should be removed.''\<rparr>
     [\<lparr>line = 100, body = ''Unused variable fooBar should be removed.''\<rparr>,
      \<lparr>line = 12, body = ''Unused variable bazQux should be removed.''\<rparr>] 5 = True"
proof -
  have t: "extractCommentTemplate ''Unused variable bazQux should be removed.''
      = extractCommentTemplate ''Unused variable fooBar should be removed.''"
    by code_simp
  have a: "isDuplicateComment
     \<lparr>line = 10, body = ''Unused variable fooBar should be removed.''\<rparr>
     [\<lparr>line = 100, body = ''Unused variable fooBar should be removed.''\<rparr>] 5 = False"
    using isDuplicateComment_characterised
      [of "\<lparr>line = 10, body = ''Unused variable fooBar should be removed.''\<rparr>"
          "[\<lparr>line = 100, body = ''Unused variable fooBar should be removed.''\<rparr>]" 5]
    by simp
  have b: "isDuplicateComment
     \<lparr>line = 10, body = ''Unused variable fooBar should be removed.''\<rparr>
     [\<lparr>line = 100, body = ''Unused variable fooBar should be removed.''\<rparr>,
      \<lparr>line = 12, body = ''Unused variable bazQux should be removed.''\<rparr>] 5 = True"
    using isDuplicateComment_characterised
      [of "\<lparr>line = 10, body = ''Unused variable fooBar should be removed.''\<rparr>"
          "[\<lparr>line = 100, body = ''Unused variable fooBar should be removed.''\<rparr>,
            \<lparr>line = 12, body = ''Unused variable bazQux should be removed.''\<rparr>]" 5] t
    by simp
  from a b show ?thesis by blast
qed

text \<open>
  Claim C10. The decision does not depend on the order of the existing comments:
  two sequences that are permutations of each other give the same result.
\<close>

theorem isDuplicateComment_permutation:
  "mset es = mset es' \<Longrightarrow> isDuplicateComment n es p = isDuplicateComment n es' p"
proof -
  assume "mset es = mset es'"
  then have "set es = set es'" by (rule mset_eq_setD)
  then show ?thesis by (simp add: isDuplicateComment_list_ex list_ex_iff)
qed

theorem isDuplicateComment_permutation_witness:
  "mset [\<lparr>line = 100, body = ''same''\<rparr>, \<lparr>line = 12, body = ''same''\<rparr>]
     = mset [\<lparr>line = 12, body = ''same''\<rparr>, \<lparr>line = 100, body = ''same''\<rparr>]
   \<and> isDuplicateComment \<lparr>line = 10, body = ''same''\<rparr>
        [\<lparr>line = 100, body = ''same''\<rparr>, \<lparr>line = 12, body = ''same''\<rparr>] 5
     = isDuplicateComment \<lparr>line = 10, body = ''same''\<rparr>
        [\<lparr>line = 12, body = ''same''\<rparr>, \<lparr>line = 100, body = ''same''\<rparr>] 5
   \<and> isDuplicateComment \<lparr>line = 10, body = ''same''\<rparr>
        [\<lparr>line = 12, body = ''same''\<rparr>, \<lparr>line = 100, body = ''same''\<rparr>] 5"
proof -
  have m: "mset [\<lparr>line = 100, body = ''same''\<rparr>, \<lparr>line = 12, body = ''same''\<rparr>]
     = mset [\<lparr>line = 12, body = ''same''\<rparr>, \<lparr>line = 100, body = ''same''\<rparr>]"
    by (simp add: add.commute)
  have d: "isDuplicateComment \<lparr>line = 10, body = ''same''\<rparr>
        [\<lparr>line = 12, body = ''same''\<rparr>, \<lparr>line = 100, body = ''same''\<rparr>] 5"
    by simp
  from isDuplicateComment_permutation [OF m, of "\<lparr>line = 10, body = ''same''\<rparr>" 5] m d
  show ?thesis by blast
qed

subsection \<open>The keyword set\<close>

text \<open>
  Claim C8, as stated: every word that the vocabulary and substring rule adds has
  more than three characters. The words \<^verbatim>\<open>api\<close> and \<^verbatim>\<open>bug\<close> have three; no code
  element is found in the text below, so they enter the keyword set by that rule.
\<close>

theorem technicalTerms_counterexample:
  "codeElements ''api bug'' = []
   \<and> technicalTerms ''api bug'' = [''api'', ''bug'']
   \<and> extractKeywordsFromComment ''api bug'' = [''api'', ''bug'']
   \<and> length ''api'' = 3 \<and> length ''bug'' = 3"
  by code_simp

text \<open>
  Claim C8, amended. Every word that the vocabulary and substring rule adds has more
  than two characters (the filter of the source is \<^verbatim>\<open>w.length > 2\<close>), and it is in
  the technical vocabulary or contains \<^verbatim>\<open>error\<close>, \<^verbatim>\<open>bug\<close>, \<^verbatim>\<open>fix\<close> or
  \<^verbatim>\<open>issue\<close>.
\<close>

theorem technicalTerms_length:
  "w \<in> set (technicalTerms t) \<Longrightarrow> 2 < length w \<and> isCodeRelatedTerm w"
  by (simp add: technicalTerms_def comment_words_def)

theorem technicalTerms_length_witness:
  "''fixes'' \<in> set (technicalTerms ''This fixes it'')
   \<and> 2 < length ''fixes'' \<and> isCodeRelatedTerm ''fixes''"
proof -
  have m: "''fixes'' \<in> set (technicalTerms ''This fixes it'')" by code_simp
  from technicalTerms_length [OF m] m show ?thesis by blast
qed

subsection \<open>The template\<close>

text \<open>
  The first two tests of the callback accept whatever the last two accept, so the
  branches for \<^verbatim>\<open>{snake_var}\<close> and \<^verbatim>\<open>{CONST}\<close> are never taken.
\<close>

lemma looks_snake_camel: "looks_snake m \<Longrightarrow> looks_camel m"
  by (auto simp: looks_snake_def looks_camel_def is_word_def is_alpha_def list_all_iff
      split: list.splits)

lemma looks_const_class: "looks_const m \<Longrightarrow> looks_class m"
  by (auto simp: looks_const_def looks_class_def is_word_def is_alpha_def list_all_iff
      split: list.splits)

lemma classify_never_snake_const:
  "(looks_snake m \<or> looks_const m) \<Longrightarrow>
     classify m = m \<or> classify m = ''{var}'' \<or> classify m = ''{Class}''"
  using looks_snake_camel looks_const_class by (auto simp: classify_def)

text \<open>
  Claim C6. A token that matches the snake-case pattern should become
  \<^verbatim>\<open>{snake_var}\<close> and one that matches the all-capitals pattern \<^verbatim>\<open>{CONST}\<close>. The
  callback tests \<^verbatim>\<open>/^[a-z][a-zA-Z0-9_]*$/\<close> and \<^verbatim>\<open>/^[A-Z][a-zA-Z0-9_]*$/\<close> first,
  and these accept every such token: \<^verbatim>\<open>foo_bar\<close> becomes \<^verbatim>\<open>{var}\<close> and
  \<^verbatim>\<open>MAX_SIZE\<close> becomes \<^verbatim>\<open>{Class}\<close>.
\<close>

theorem snake_and_const_tokens:
  "extractCommentTemplate ''foo_bar'' = ''{var}''
   \<and> extractCommentTemplate ''MAX_SIZE'' = ''{Class}''
   \<and> looks_snake ''foo_bar'' \<and> looks_const ''MAX_SIZE''
   \<and> \<not> isCommonWord ''foo_bar'' \<and> \<not> isCodeKeyword ''foo_bar''
   \<and> \<not> isCommonWord ''MAX_SIZE'' \<and> \<not> isCodeKeyword ''MAX_SIZE''"
  by code_simp

text \<open>
  Claim C7. The method name of a method call should become \<^verbatim>\<open>{method}\<close>. The
  identifier pass runs first and has already replaced the name \<^verbatim>\<open>foo\<close> by
  \<^verbatim>\<open>{var}\<close>, so the method-call pattern, which wants a letter after the dot, does
  not match any more.
\<close>

theorem method_call_not_replaced:
  "extractCommentTemplate ''obj.foo()'' = ''{var}.{var}()''"
  by code_simp

text \<open>
  Claim C5, as stated: the template of a template is the template. The name of the
  keyword \<^verbatim>\<open>get\<close> survives the identifier pass and the method-call pass makes it
  \<^verbatim>\<open>{method}\<close>; in a second application \<^verbatim>\<open>method\<close> is an identifier and becomes
  \<^verbatim>\<open>{var}\<close>.
\<close>

theorem template_not_idempotent:
  "extractCommentTemplate ''.get('' = ''.{method}(''
   \<and> extractCommentTemplate (extractCommentTemplate ''.get('') = ''.{{var}}(''"
  by code_simp

text \<open>
  The identifier pass splits at every character that is not a word character, and
  it leaves alone what it has put for a token.
\<close>

lemma takeWhile_append_stop: "\<not> P c \<Longrightarrow> takeWhile P (xs @ c # ys) = takeWhile P xs"
  by (induction xs) auto

lemma dropWhile_append_stop: "\<not> P c \<Longrightarrow> dropWhile P (xs @ c # ys) = dropWhile P xs @ c # ys"
  by (induction xs) auto

lemma replace_identifiers_split:
  "\<not> is_word c \<Longrightarrow>
     replace_identifiers (u @ c # w) = replace_identifiers u @ c # replace_identifiers w"
proof (induction u rule: replace_identifiers.induct)
  case 1
  then show ?case by simp
next
  case (2 d ds)
  then show ?case
    by (cases "is_word d") (simp_all add: takeWhile_append_stop dropWhile_append_stop)
qed

lemma classify_cases:
  "is_alpha c \<Longrightarrow> list_all is_word t \<Longrightarrow>
     classify (c # t) = c # t \<or> classify (c # t) = ''{var}'' \<or> classify (c # t) = ''{Class}''"
  by (auto simp: classify_def looks_camel_def looks_class_def is_alpha_def)

lemma list_all_takeWhile: "list_all P (takeWhile P xs)"
  by (induction xs) auto

lemma replace_identifiers_token:
  "is_word c \<Longrightarrow> list_all is_word t \<Longrightarrow>
     replace_identifiers (c # t) = (if is_alpha c then classify (c # t) else c # t)"
proof -
  assume c: "is_word c" and t: "list_all is_word t"
  from t have tk: "takeWhile is_word t = t" and dr: "dropWhile is_word t = []"
    by (simp_all add: list_all_iff takeWhile_eq_all_conv dropWhile_eq_Nil_conv)
  show ?thesis using c by (simp add: tk dr)
qed

lemma replace_identifiers_var: "replace_identifiers ''{var}'' = ''{var}''"
  by code_simp

lemma replace_identifiers_Class: "replace_identifiers ''{Class}'' = ''{Class}''"
  by code_simp

lemma not_word_brace: "\<not> is_word CHR ''{''"
  by code_simp

text \<open>What stands for a token is left alone by the identifier pass.\<close>

lemma replace_identifiers_replacement:
  assumes "is_word c"
  shows "replace_identifiers
           (if is_alpha c then classify (c # takeWhile is_word cs) else c # takeWhile is_word cs)
         = (if is_alpha c then classify (c # takeWhile is_word cs) else c # takeWhile is_word cs)"
proof (cases "is_alpha c")
  case False
  with assms show ?thesis
    by (simp only: if_False replace_identifiers_token [OF assms list_all_takeWhile])
next
  case True
  from classify_cases [OF True list_all_takeWhile [of is_word cs]]
  show ?thesis
  proof (elim disjE)
    assume k: "classify (c # takeWhile is_word cs) = c # takeWhile is_word cs"
    have "replace_identifiers (c # takeWhile is_word cs) = classify (c # takeWhile is_word cs)"
      using replace_identifiers_token [OF assms list_all_takeWhile, of cs] True by simp
    with k True show ?thesis by simp
  next
    assume "classify (c # takeWhile is_word cs) = ''{var}''"
    with True show ?thesis by (simp only: if_True replace_identifiers_var)
  next
    assume "classify (c # takeWhile is_word cs) = ''{Class}''"
    with True show ?thesis by (simp only: if_True replace_identifiers_Class)
  qed
qed

lemma dropWhile_head: "dropWhile P xs = [] \<or> (\<exists>y ys. dropWhile P xs = y # ys \<and> \<not> P y)"
  by (metis hd_dropWhile list.exhaust list.sel(1))

lemma replace_identifiers_idem:
  "replace_identifiers (replace_identifiers s) = replace_identifiers s"
proof (induction s rule: replace_identifiers.induct)
  case 1
  then show ?case by simp
next
  case (2 c cs)
  show ?case
  proof (cases "is_word c")
    case False
    with 2 show ?thesis by simp
  next
    case True
    define X where "X = (if is_alpha c then classify (c # takeWhile is_word cs)
                         else c # takeWhile is_word cs)"
    have X: "replace_identifiers X = X"
      unfolding X_def by (rule replace_identifiers_replacement [OF True])
    have s: "replace_identifiers (c # cs) = X @ replace_identifiers (dropWhile is_word cs)"
      using True by (simp add: X_def)
    have ih: "replace_identifiers (replace_identifiers (dropWhile is_word cs))
              = replace_identifiers (dropWhile is_word cs)"
      using 2(1) [OF True] .
    from dropWhile_head [of is_word cs] show ?thesis
    proof (elim disjE exE conjE)
      assume "dropWhile is_word cs = []"
      with s X show ?thesis by simp
    next
      fix y ys assume d: "dropWhile is_word cs = y # ys" and y: "\<not> is_word y"
      from ih d y have "replace_identifiers (replace_identifiers ys) = replace_identifiers ys"
        by simp
      with s d y X show ?thesis by (simp add: replace_identifiers_split)
    qed
  qed
qed

text \<open>
  A string that the identifier pass leaves unchanged stays so when it is cut at a
  character that is not a word character. The token \<^verbatim>\<open>loads\<close> is always replaced,
  so the output of the identifier pass never contains \<^verbatim>\<open>.loads\<close> followed by a
  space, and the \<^verbatim>\<open>json.loads on\<close> pattern of case 2 never matches in it.
\<close>

lemma not_word_dot: "\<not> is_word CHR ''.''" by code_simp
lemma not_word_blank: "\<not> is_word CHR '' ''" by code_simp

lemma replace_identifiers_fixed_prefix:
  "\<not> is_word c \<Longrightarrow> replace_identifiers (u @ c # w) = u @ c # w \<Longrightarrow>
     replace_identifiers u = u"
proof (induction u rule: replace_identifiers.induct)
  case 1
  then show ?case by simp
next
  case (2 d ds)
  show ?case
  proof (cases "is_word d")
    case False
    with 2 show ?thesis by simp
  next
    case True
    define tk where "tk = takeWhile is_word ds"
    define rs where "rs = dropWhile is_word ds"
    have ds: "ds = tk @ rs" by (simp add: tk_def rs_def)
    define X where "X = (if is_alpha d then classify (d # tk) else d # tk)"
    have l: "replace_identifiers ((d # ds) @ c # w) = X @ replace_identifiers (rs @ c # w)"
      using True 2(3)
      by (simp add: X_def tk_def rs_def takeWhile_append_stop dropWhile_append_stop)
    have X: "X = d # tk"
    proof (cases "is_alpha d")
      case False
      then show ?thesis by (simp add: X_def)
    next
      case a: True
      from classify_cases [OF a list_all_takeWhile [of is_word ds]]
      have "X = d # tk \<or> X = ''{var}'' \<or> X = ''{Class}''"
        using a by (simp add: X_def tk_def)
      moreover have "X @ replace_identifiers (rs @ c # w) = (d # tk) @ rs @ c # w"
        using l 2(4) ds by simp
      ultimately show ?thesis using True not_word_brace by auto
    qed
    have "replace_identifiers (rs @ c # w) = rs @ c # w"
      using l 2(4) ds X by simp
    then have "replace_identifiers rs = rs"
      using 2(1) [OF True 2(3)] by (simp add: rs_def)
    moreover have "replace_identifiers (d # ds) = X @ replace_identifiers rs"
      using True by (simp add: X_def tk_def rs_def)
    ultimately show ?thesis using X ds by simp
  qed
qed

lemma replace_identifiers_fixed_suffix:
  assumes "\<not> is_word c" and "replace_identifiers (u @ c # w) = u @ c # w"
  shows "replace_identifiers w = w"
proof -
  have "replace_identifiers u = u"
    using assms by (rule replace_identifiers_fixed_prefix)
  with assms show ?thesis by (simp add: replace_identifiers_split)
qed

lemma replace_identifiers_loads: "replace_identifiers ''loads'' = ''{var}''"
  by code_simp

lemma fixed_no_loads:
  assumes "replace_identifiers t = t"
  shows "t \<noteq> a @ ''.loads '' @ b"
proof
  assume "t = a @ ''.loads '' @ b"
  then have t: "t = a @ CHR ''.'' # (''loads'' @ CHR '' '' # b)" by simp
  have "replace_identifiers (''loads'' @ CHR '' '' # b) = ''loads'' @ CHR '' '' # b"
    using replace_identifiers_fixed_suffix [OF not_word_dot] assms unfolding t by blast
  then have "replace_identifiers ''loads'' = ''loads''"
    using replace_identifiers_fixed_prefix [OF not_word_blank] by blast
  then have "''{var}'' = ''loads''" by (simp only: replace_identifiers_loads)
  then show False by simp
qed

lemma env_var_at_prefix: "env_var_at u = Some r \<Longrightarrow> \<exists>v. u = ''json.loads on '' @ v"
  by (auto simp: env_var_at_def expect_def prefix_def split: if_splits)

lemma replace_env_var_id:
  "(\<And>a b. t \<noteq> a @ ''.loads '' @ b) \<Longrightarrow> replace_env_var t = t"
proof (induction t)
  case Nil
  then show ?case by simp
next
  case (Cons c cs)
  have n: "env_var_at (c # cs) = None"
  proof (rule ccontr)
    assume "env_var_at (c # cs) \<noteq> None"
    then obtain r where "env_var_at (c # cs) = Some r" by auto
    then obtain v where "c # cs = ''json.loads on '' @ v"
      using env_var_at_prefix by blast
    then have "c # cs = ''json'' @ ''.loads '' @ (''on '' @ v)" by simp
    with Cons.prems show False by blast
  qed
  have "\<And>a b. cs \<noteq> a @ ''.loads '' @ b"
  proof
    fix a b assume "cs = a @ ''.loads '' @ b"
    then have "c # cs = (c # a) @ ''.loads '' @ b" by simp
    with Cons.prems show False by blast
  qed
  then have "replace_env_var cs = cs" by (rule Cons.IH)
  with n show ?case by simp
qed

lemma replace_env_var_after_identifiers:
  "replace_env_var (replace_identifiers s) = replace_identifiers s"
  by (rule replace_env_var_id) (rule fixed_no_loads, rule replace_identifiers_idem)

text \<open>
  No pass removes an opening brace, the method-call pass puts \<^verbatim>\<open>{method}\<close>
  wherever it replaces a name, and the identifier pass of a second application adds
  a brace there, since \<^verbatim>\<open>method\<close> is an identifier.
\<close>

lemma braces_append: "braces (a @ b) = braces a + braces b"
  by (simp add: braces_def)

lemma braces_Cons: "braces (c # s) = (if c = CHR ''{'' then 1 else 0) + braces s"
  by (simp add: braces_def)

lemma braces_Nil: "braces [] = 0"
  by (simp add: braces_def)

lemma braces_word: "list_all is_word t \<Longrightarrow> braces t = 0"
  using not_word_brace by (induction t) (auto simp: braces_def)

lemma braces_replace_identifiers: "braces s \<le> braces (replace_identifiers s)"
proof (induction s rule: replace_identifiers.induct)
  case 1
  then show ?case by simp
next
  case (2 c cs)
  show ?case
  proof (cases "is_word c")
    case False
    with 2 show ?thesis by (simp add: braces_Cons)
  next
    case True
    have "braces (c # cs) = braces ((c # takeWhile is_word cs) @ dropWhile is_word cs)"
      by simp
    also have "\<dots> = braces (dropWhile is_word cs)"
      using True braces_word [of "c # takeWhile is_word cs"]
      by (simp only: braces_append) (simp add: list_all_takeWhile)
    also have "\<dots> \<le> braces (replace_identifiers (dropWhile is_word cs))"
      using 2(1) [OF True] .
    also have "\<dots> \<le> braces (replace_identifiers (c # cs))"
      using True by (simp add: braces_append)
    finally show ?thesis .
  qed
qed

lemma method_call_at_parts:
  assumes "method_call_at s = Some (g1, g3, rest)"
  shows "\<exists>name. s = g1 @ name @ g3 @ rest \<and> list_all is_word name"
proof -
  from assms obtain r a r2 where
    s: "s = CHR ''.'' # r" and
    a: "dropWhile is_space r = a # r2" and aw: "is_alpha a" and
    b: "dropWhile is_space (dropWhile is_word r2) = CHR ''('' # rest" and
    g1: "g1 = CHR ''.'' # takeWhile is_space r" and
    g3: "g3 = takeWhile is_space (dropWhile is_word r2) @ [CHR ''('']"
    by (auto simp: method_call_at_def split: list.splits if_splits)
  have "r = takeWhile is_space r @ dropWhile is_space r" by simp
  also have "dropWhile is_space r = a # (takeWhile is_word r2 @ dropWhile is_word r2)"
    using a by simp
  also have "dropWhile is_word r2
      = takeWhile is_space (dropWhile is_word r2) @ dropWhile is_space (dropWhile is_word r2)"
    by simp
  finally have "s = g1 @ (a # takeWhile is_word r2) @ g3 @ rest"
    using s g1 g3 b by simp
  moreover have "list_all is_word (a # takeWhile is_word r2)"
    using aw by (simp add: list_all_takeWhile is_word_def)
  ultimately show ?thesis by blast
qed

lemma braces_replace_method_calls: "braces s \<le> braces (replace_method_calls s)"
proof (induction s rule: replace_method_calls.induct)
  case 1
  then show ?case by simp
next
  case (2 c cs)
  show ?case
  proof (cases "method_call_at (c # cs)")
    case None
    with 2 show ?thesis by (simp add: braces_Cons)
  next
    case (Some x)
    obtain g1 g3 rest where x: "x = (g1, g3, rest)" by (cases x)
    from Some x obtain name where
      s: "c # cs = g1 @ name @ g3 @ rest" and n: "list_all is_word name"
      using method_call_at_parts by blast
    have ih: "braces rest \<le> braces (replace_method_calls rest)"
      using 2(2) [OF Some] x by simp
    have "braces (c # cs) = braces g1 + braces g3 + braces rest"
      unfolding s by (simp add: braces_append braces_word [OF n])
    also have "\<dots> \<le> braces (g1 @ ''{method}'' @ g3 @ replace_method_calls rest)"
      using ih by (simp add: braces_append braces_Cons)
    also have "\<dots> = braces (replace_method_calls (c # cs))"
      using Some x by simp
    finally show ?thesis .
  qed
qed

lemma replace_method_calls_changed:
  "replace_method_calls s \<noteq> s \<Longrightarrow> \<exists>u w. replace_method_calls s = u @ ''{method}'' @ w"
proof (induction s rule: replace_method_calls.induct)
  case 1
  then show ?case by simp
next
  case (2 c cs)
  show ?case
  proof (cases "method_call_at (c # cs)")
    case None
    with 2(3) have "replace_method_calls cs \<noteq> cs" by simp
    then obtain u w where "replace_method_calls cs = u @ ''{method}'' @ w"
      using 2(1) [OF None] by blast
    then have "replace_method_calls (c # cs) = (c # u) @ ''{method}'' @ w"
      using None by simp
    then show ?thesis by blast
  next
    case (Some x)
    obtain g1 g3 rest where x: "x = (g1, g3, rest)" by (cases x)
    have "replace_method_calls (c # cs)
        = g1 @ ''{method}'' @ (g3 @ replace_method_calls rest)"
      using Some x by simp
    then show ?thesis by blast
  qed
qed

lemma replace_identifiers_method: "replace_identifiers ''method'' = ''{var}''"
  by code_simp

lemma not_word_close: "\<not> is_word CHR ''}''"
  by code_simp

lemma braces_method_placeholder:
  "braces (u @ ''{method}'' @ w) < braces (replace_identifiers (u @ ''{method}'' @ w))"
proof -
  have e: "u @ ''{method}'' @ w = u @ CHR ''{'' # (''method'' @ CHR ''}'' # w)" by simp
  have r: "replace_identifiers (u @ ''{method}'' @ w)
      = replace_identifiers u @ CHR ''{''
          # (''{var}'' @ CHR ''}'' # replace_identifiers w)"
    unfolding e
    by (simp only: replace_identifiers_split [OF not_word_brace]
        replace_identifiers_split [OF not_word_close] replace_identifiers_method)
  have "braces (replace_identifiers (u @ ''{method}'' @ w))
      = braces (replace_identifiers u) + 2 + braces (replace_identifiers w)"
    unfolding r by (simp add: braces_append braces_Cons braces_Nil)
  moreover have "braces (u @ ''{method}'' @ w) = braces u + 1 + braces w"
    by (simp add: braces_append braces_Cons braces_Nil)
  ultimately show ?thesis
    using braces_replace_identifiers [of u] braces_replace_identifiers [of w] by linarith
qed

lemma template_after_identifiers:
  "extractCommentTemplate s = replace_method_calls (replace_identifiers s)"
  by (simp add: extractCommentTemplate_def replace_env_var_after_identifiers)

lemma template_changes_method:
  assumes "replace_method_calls (replace_identifiers s) \<noteq> replace_identifiers s"
  shows "extractCommentTemplate (extractCommentTemplate s) \<noteq> extractCommentTemplate s"
proof -
  from assms obtain u w where
    t: "extractCommentTemplate s = u @ ''{method}'' @ w"
    unfolding template_after_identifiers
    using replace_method_calls_changed by blast
  have "braces (extractCommentTemplate s)
      < braces (replace_identifiers (extractCommentTemplate s))"
    unfolding t by (rule braces_method_placeholder)
  also have "\<dots> \<le> braces (extractCommentTemplate (extractCommentTemplate s))"
    unfolding template_after_identifiers [of "extractCommentTemplate s"]
    by (rule braces_replace_method_calls)
  finally show ?thesis by auto
qed

text \<open>
  Claim C5, amended. The identifier pass is idempotent: the placeholders \<^verbatim>\<open>{var}\<close>
  and \<^verbatim>\<open>{Class}\<close> are not substituted again (\<^verbatim>\<open>var\<close> and \<^verbatim>\<open>class\<close> are
  keywords). The template of a template is the template exactly for the bodies in
  which the method-call pass finds nothing to replace after the identifier pass,
  that is, whose template has no \<^verbatim>\<open>{method}\<close> put in.
\<close>

theorem template_idempotent_iff:
  "replace_identifiers (replace_identifiers s) = replace_identifiers s
   \<and> (extractCommentTemplate (extractCommentTemplate s) = extractCommentTemplate s
      \<longleftrightarrow> replace_method_calls (replace_identifiers s) = replace_identifiers s)"
proof (intro conjI iffI)
  show "replace_identifiers (replace_identifiers s) = replace_identifiers s"
    by (rule replace_identifiers_idem)
next
  assume "extractCommentTemplate (extractCommentTemplate s) = extractCommentTemplate s"
  then show "replace_method_calls (replace_identifiers s) = replace_identifiers s"
    using template_changes_method by blast
next
  assume "replace_method_calls (replace_identifiers s) = replace_identifiers s"
  then show "extractCommentTemplate (extractCommentTemplate s) = extractCommentTemplate s"
    by (simp add: template_after_identifiers replace_identifiers_idem)
qed


theorem template_idempotent_iff_witness:
  "replace_method_calls (replace_identifiers ''Unused variable fooBar should be removed.'')
     = replace_identifiers ''Unused variable fooBar should be removed.''
   \<and> extractCommentTemplate ''Unused variable fooBar should be removed.''
     = ''{Class} {var} {var} should {var} {var}.''
   \<and> extractCommentTemplate
       (extractCommentTemplate ''Unused variable fooBar should be removed.'')
     = extractCommentTemplate ''Unused variable fooBar should be removed.''"
proof -
  have m: "replace_method_calls
       (replace_identifiers ''Unused variable fooBar should be removed.'')
     = replace_identifiers ''Unused variable fooBar should be removed.''"
    by code_simp
  have t: "extractCommentTemplate ''Unused variable fooBar should be removed.''
     = ''{Class} {var} {var} should {var} {var}.''"
    by code_simp
  from template_idempotent_iff
    [of "''Unused variable fooBar should be removed.''"] m
  have "extractCommentTemplate
       (extractCommentTemplate ''Unused variable fooBar should be removed.'')
     = extractCommentTemplate ''Unused variable fooBar should be removed.''"
    by blast
  with m t show ?thesis by blast
qed

subsection \<open>Empty bodies\<close>

text \<open>
  Claim C9, as stated: a candidate with an empty body is never a duplicate of an
  existing comment with a non-empty body. The body \<^verbatim>\<open>!\<close> is not empty, but
  \<^verbatim>\<open>normalize\<close> makes it the empty string, and two empty strings have similarity 1.
\<close>

theorem empty_body_counterexample:
  "isDuplicateComment \<lparr>line = 10, body = ''''\<rparr> [\<lparr>line = 10, body = ''!''\<rparr>] 5
   \<and> stringSimilarity '''' ''!'' = 1"
  by code_simp

text \<open>
  \<^verbatim>\<open>normalize\<close> gives the empty string exactly for the bodies without a solid
  character, and each pass of the template keeps or puts a solid character where it
  finds one.
\<close>

lemma is_space_blank: "is_space CHR '' ''" by code_simp

lemma trim_Nil_iff: "trim s = [] \<longleftrightarrow> (\<forall>c \<in> set s. is_space c)"
proof
  assume "trim s = []"
  then have "dropWhile is_space (rev (dropWhile is_space s)) = []" by (simp add: trim_def)
  then have a: "\<forall>c \<in> set (dropWhile is_space s). is_space c"
    by (simp add: dropWhile_eq_Nil_conv)
  have "dropWhile is_space s = []"
  proof (cases "dropWhile is_space s")
    case Nil
    then show ?thesis .
  next
    case (Cons y ys)
    then have "\<not> is_space y" by (metis hd_dropWhile list.sel(1) list.distinct(1))
    with a Cons show ?thesis by simp
  qed
  then show "\<forall>c \<in> set s. is_space c" by (simp add: dropWhile_eq_Nil_conv)
next
  assume "\<forall>c \<in> set s. is_space c"
  then have d: "dropWhile is_space s = []" by (simp add: dropWhile_eq_Nil_conv)
  show "trim s = []" unfolding trim_def d by simp
qed

lemma normalize_Nil_iff: "normalize x = [] \<longleftrightarrow> \<not> list_ex solid x"
  by (auto simp: normalize_def trim_Nil_iff toLowerCase_def solid_def list_ex_iff is_space_blank)

lemma solid_var: "list_ex solid ''{var}''" by code_simp
lemma solid_Class: "list_ex solid ''{Class}''" by code_simp
lemma solid_snake: "list_ex solid ''{snake_var}''" by code_simp
lemma solid_CONST: "list_ex solid ''{CONST}''" by code_simp
lemma solid_method: "list_ex solid ''{method}''" by code_simp
lemma solid_json: "list_ex solid ''json.loads on {ENV_VAR}''" by code_simp

lemma solid_classify: "list_ex solid m \<Longrightarrow> list_ex solid (classify m)"
  using solid_var solid_Class solid_snake solid_CONST by (simp add: classify_def)

lemma solid_replace_identifiers:
  "list_ex solid s \<Longrightarrow> list_ex solid (replace_identifiers s)"
proof (induction s rule: replace_identifiers.induct)
  case 1
  then show ?case by simp
next
  case (2 c cs)
  show ?case
  proof (cases "is_word c")
    case False
    with 2 show ?thesis by auto
  next
    case True
    have "c # cs = (c # takeWhile is_word cs) @ dropWhile is_word cs" by simp
    then have "list_ex solid ((c # takeWhile is_word cs) @ dropWhile is_word cs)"
      using 2(3) by metis
    then have "list_ex solid (c # takeWhile is_word cs) \<or> list_ex solid (dropWhile is_word cs)"
      by (simp only: list_ex_append)
    then show ?thesis
    proof
      assume a: "list_ex solid (c # takeWhile is_word cs)"
      then have "list_ex solid (classify (c # takeWhile is_word cs))" by (rule solid_classify)
      with a True show ?thesis by (simp only: replace_identifiers.simps list_ex_append if_True split: if_splits) auto
    next
      assume "list_ex solid (dropWhile is_word cs)"
      then have "list_ex solid (replace_identifiers (dropWhile is_word cs))"
        using 2(1) [OF True] by blast
      with True show ?thesis by (simp only: replace_identifiers.simps list_ex_append if_True) simp
    qed
  qed
qed

lemma solid_replace_env_var: "list_ex solid s \<Longrightarrow> list_ex solid (replace_env_var s)"
proof (induction s)
  case Nil
  then show ?case by simp
next
  case (Cons c cs)
  show ?case
  proof (cases "env_var_at (c # cs)")
    case None
    with Cons show ?thesis by auto
  next
    case (Some r)
    have "list_ex solid (''json.loads on {ENV_VAR}'' @ r)"
      using solid_json by (simp only: list_ex_append) simp
    with Some show ?thesis by (simp only: replace_env_var.simps option.case)
  qed
qed

lemma solid_replace_method_calls:
  "list_ex solid s \<Longrightarrow> list_ex solid (replace_method_calls s)"
proof (induction s rule: replace_method_calls.induct)
  case 1
  then show ?case by simp
next
  case (2 c cs)
  show ?case
  proof (cases "method_call_at (c # cs)")
    case None
    with 2 show ?thesis by auto
  next
    case (Some x)
    obtain g1 g3 rest where x: "x = (g1, g3, rest)" by (cases x)
    have "list_ex solid (g1 @ ''{method}'' @ g3 @ replace_method_calls rest)"
      using solid_method by (simp only: list_ex_append) simp
    with Some x show ?thesis by (simp only: replace_method_calls.simps option.case prod.case)
  qed
qed

lemma normalize_template:
  "normalize x \<noteq> [] \<Longrightarrow> normalize (extractCommentTemplate x) \<noteq> []"
  by (simp add: normalize_Nil_iff extractCommentTemplate_def solid_replace_identifiers
      solid_replace_env_var solid_replace_method_calls)

lemma normalize_Nil: "normalize [] = []" by (simp add: normalize_def trim_def toLowerCase_def)

lemma lev_dp_zero: "lev_dp a b 0 j = j"
  by (cases j) simp_all

lemma stringSimilarity_empty:
  "normalize x \<noteq> [] \<Longrightarrow> stringSimilarity [] x = 0"
  by (simp add: stringSimilarity_def normalize_Nil wordBasedSimilarity_def Let_def
      levenshteinDistance_def lev_dp_zero)

lemma extractKeywords_empty: "extractKeywordsFromComment [] = []"
  by code_simp

lemma template_empty: "extractCommentTemplate [] = []"
  by (simp add: extractCommentTemplate_def)

lemma is_match_empty:
  assumes "body n = []" and "normalize (body e) \<noteq> []"
  shows "\<not> is_match n p e"
proof -
  have t: "normalize (extractCommentTemplate (body e)) \<noteq> []"
    using assms(2) by (rule normalize_template)
  then have "extractCommentTemplate (body e) \<noteq> []" using normalize_Nil by metis
  with assms t show ?thesis
    by (simp add: is_match_def template_empty extractKeywords_empty
        calculateKeywordOverlap_def stringSimilarity_empty)
qed

lemma stringSimilarity_both_empty:
  "normalize x = [] \<Longrightarrow> stringSimilarity [] x = 1"
  by (simp add: stringSimilarity_def normalize_Nil levenshteinDistance_def)

lemma is_match_empty_iff:
  assumes "body n = []"
  shows "is_match n p e \<longleftrightarrow> \<bar>line e - line n\<bar> \<le> p \<and> normalize (body e) = []"
proof (cases "normalize (body e) = []")
  case True
  then have "stringSimilarity (body n) (body e) = 1"
    using assms by (simp add: stringSimilarity_both_empty)
  with True show ?thesis by (simp add: is_match_def)
next
  case False
  with assms have "\<not> is_match n p e" by (rule is_match_empty)
  with False show ?thesis by simp
qed

text \<open>
  Claim C9, amended. A candidate with an empty body is a duplicate exactly when some
  existing comment within \<open>lineProximity\<close> lines has a body that \<^verbatim>\<open>normalize\<close>
  (lower case, punctuation to spaces, trim) makes empty. So it never matches an
  existing comment whose normalized body is not empty: against such a body the
  templates differ, and the keyword overlap, the text similarity and the template
  similarity are all 0.
\<close>

theorem empty_candidate_duplicate_iff:
  "body n = [] \<Longrightarrow>
   isDuplicateComment n es p
     = (\<exists>e \<in> set es. \<bar>line e - line n\<bar> \<le> p \<and> normalize (body e) = [])"
  by (simp add: isDuplicateComment_list_ex list_ex_iff is_match_empty_iff)

theorem empty_candidate_duplicate_iff_witness:
  "normalize ''Unused import.'' = ''unused import''
   \<and> \<not> isDuplicateComment \<lparr>line = 10, body = ''''\<rparr>
        [\<lparr>line = 12, body = ''Unused import.''\<rparr>] 5"
proof -
  have n: "normalize ''Unused import.'' = ''unused import''" by code_simp
  have "\<not> isDuplicateComment \<lparr>line = 10, body = ''''\<rparr>
        [\<lparr>line = 12, body = ''Unused import.''\<rparr>] 5"
    using empty_candidate_duplicate_iff
      [of "\<lparr>line = 10, body = ''''\<rparr>" "[\<lparr>line = 12, body = ''Unused import.''\<rparr>]" 5]
    by (simp add: n)
  with n show ?thesis by blast
qed

end
